theory Spec2Isabelle
  imports Complex_Main "HOL-Library.Log_Nat"
begin

section \<open>VCF records as the comparator reads them\<close>

text \<open>
  The comparator (\<^verbatim>\<open>vcfcomparator.py\<close>) reads records produced by the PyVCF
  reader. Only the attributes the program touches are modelled. The three type
  properties \<^verbatim>\<open>is_snp\<close>, \<^verbatim>\<open>is_indel\<close> and \<^verbatim>\<open>is_sv\<close> are computed by the
  reader library, not by this program, so they are fields of the record here. So is
  \<open>uid_text\<close>: the string \<^verbatim>\<open>','.join(map(str, fields))\<close> that \<^verbatim>\<open>sv_uid\<close>
  builds from the record, whose parts are printed by the library's objects; two
  records that differ in a field may print to the same string.
  Python integers are unbounded: \<open>int\<close>.
\<close>

datatype py_error =
  AssertionError | IndexError | AttributeError | NameError | ValueError | OverflowError

text \<open>
  \<^verbatim>\<open>rec.INFO.get('END')\<close> is read as \<^verbatim>\<open>END[0]\<close> first and, on a
  \<^verbatim>\<open>TypeError\<close>, as a plain number: the annotation is a list or an integer.
\<close>

datatype info_end = END_int int | END_list "int list"

record info =
  CIPOS :: "int list option"
  CIEND :: "int list option"
  END :: "info_end option"
  SVTYPE :: "string option"

record vcf_record =
  CHROM :: string
  POS :: int
  ID :: "string option"
  REF :: string
  ALT :: "string list"
  QUAL :: "int option"
  FILTER :: "string list option"
  INFO :: info
  uid_text :: string
  is_snp :: bool
  is_indel :: bool
  is_sv :: bool

text \<open>
  \<^verbatim>\<open>rec.start\<close> and \<^verbatim>\<open>rec.end\<close> of the reader library: the zero-based start
  and the end of the reference allele.
\<close>

definition rec_start :: "vcf_record \<Rightarrow> int" where
  "rec_start r = POS r - 1"

definition rec_end :: "vcf_record \<Rightarrow> int" where
  "rec_end r = rec_start r + int (length (REF r))"

text \<open>
  A reader handle (\<^verbatim>\<open>vcf.Reader\<close>): the records it iterates, in file order, and its
  region query \<^verbatim>\<open>fetch(chrom, start, end)\<close>. The query is the reader library's
  (an index lookup), so it is a component of the handle; it may raise.
\<close>

record vcf_source =
  records :: "vcf_record list"
  fetch :: "string \<Rightarrow> int \<Rightarrow> int \<Rightarrow> py_error + vcf_record list"

section \<open>Python floats\<close>

text \<open>
  A Python float is an IEEE 754 double; a finite one is the rational it stands for.
  \<open>double_round\<close> rounds a rational to the nearest double, ties to even: 53
  significant bits, with the fixed spacing of the subnormal range below
  \<open>2 powi (- 1022)\<close>.
  \<^verbatim>\<open>float(n)\<close> of an integer rounds in this way and raises \<^verbatim>\<open>OverflowError\<close>
  when the result would not be finite.
\<close>

definition ilog2 :: "rat \<Rightarrow> int" where
  "ilog2 q =
     (case quotient_of q of
        (n, d) \<Rightarrow> (let e0 = bitlen n - bitlen d in if 2 powi e0 \<le> q then e0 else e0 - 1))"

definition round_half_even :: "rat \<Rightarrow> int" where
  "round_half_even m =
     (let f = \<lfloor>m\<rfloor>; r = m - of_int f
      in if r < 1 / 2 then f else if 1 / 2 < r then f + 1 else if even f then f else f + 1)"

definition double_round :: "rat \<Rightarrow> rat" where
  "double_round q =
     (if q = 0 then 0
      else (let a = \<bar>q\<bar>;
                e = max (ilog2 a) (- 1022);
                ulp = 2 powi (e - 52)
            in sgn q * of_int (round_half_even (a / ulp)) * ulp))"

definition py_float :: "int \<Rightarrow> py_error + rat" where
  "py_float n =
     (let x = double_round (of_int n)
      in if 2 ^ 1024 \<le> \<bar>x\<bar> then Inl OverflowError else Inr x)"

section \<open>Confidence intervals and overlap\<close>

text \<open>
  \<^verbatim>\<open>
  if len(rec.INFO.get('CIPOS')) == 2:
      cipos_start, cipos_end = map(abs, rec.INFO.get('CIPOS'))
  else:
      cipos_start = cipos_end = abs(rec.INFO.get('CIPOS')[0])
  \<close>
  An absent key leaves both offsets at 0; an empty list raises \<^verbatim>\<open>IndexError\<close>.
\<close>

fun ci_offsets :: "int list option \<Rightarrow> py_error + (int \<times> int)" where
  "ci_offsets None = Inr (0, 0)"
| "ci_offsets (Some [a, b]) = Inr (\<bar>a\<bar>, \<bar>b\<bar>)"
| "ci_offsets (Some []) = Inl IndexError"
| "ci_offsets (Some (a # _)) = Inr (\<bar>a\<bar>, \<bar>a\<bar>)"

fun end_value :: "info_end \<Rightarrow> py_error + int" where
  "end_value (END_list []) = Inl IndexError"
| "end_value (END_list (e # _)) = Inr e"
| "end_value (END_int e) = Inr e"

definition get_conf_interval :: "vcf_record \<Rightarrow> int \<Rightarrow> py_error + (int \<times> int)" where
  "get_conf_interval r w_indel =
     (case ci_offsets (CIPOS (INFO r)) of
        Inl e \<Rightarrow> Inl e
      | Inr (cipos_start, cipos_end) \<Rightarrow>
     (case ci_offsets (CIEND (INFO r)) of
        Inl e \<Rightarrow> Inl e
      | Inr (ciend_start, ciend_end) \<Rightarrow>
     (case (case END (INFO r) of
              None \<Rightarrow> Inr (POS r + 1 + cipos_end)
            | Some ev \<Rightarrow> (case end_value ev of Inl e \<Rightarrow> Inl e | Inr n \<Rightarrow> Inr (n + ciend_end))) of
        Inl e \<Rightarrow> Inl e
      | Inr end0 \<Rightarrow>
          if is_indel r
          then Inr (POS r - (cipos_start + w_indel), end0 + w_indel)
          else Inr (POS r - cipos_start, end0))))"

definition get_overlap_coords :: "int \<times> int \<Rightarrow> int \<times> int \<Rightarrow> int \<times> int" where
  "get_overlap_coords iv_a iv_b =
     (if min (snd iv_a) (snd iv_b) - max (fst iv_a) (fst iv_b) > 0
      then (max (fst iv_a) (fst iv_b), min (snd iv_a) (snd iv_b))
      else (0, 0))"

section \<open>Match entries and scoring\<close>

datatype vkind = SNV | INDEL | SV | CNV

text \<open>
  One \<^verbatim>\<open>Variant\<close> object (subclass \<^verbatim>\<open>SNV\<close>, \<^verbatim>\<open>INDEL\<close>, \<^verbatim>\<open>SV\<close> or \<^verbatim>\<open>CNV\<close>):
  the driving record, the optional primary match and the overflow list.
\<close>

record variant =
  kind :: vkind
  recA :: vcf_record
  recB :: "vcf_record option"
  altmatch :: "vcf_record list"

definition new_variant :: "vkind \<Rightarrow> vcf_record \<Rightarrow> variant" where
  "new_variant k a = \<lparr>kind = k, recA = a, recB = None, altmatch = []\<rparr>"

text \<open>\<^verbatim>\<open>set_left\<close>: returns the updated object and the boolean the method returns.\<close>

definition set_left :: "variant \<Rightarrow> vcf_record \<Rightarrow> variant \<times> bool" where
  "set_left v b = (case recB v of None \<Rightarrow> (v\<lparr>recB := Some b\<rparr>, True) | Some _ \<Rightarrow> (v, False))"

definition matched :: "variant \<Rightarrow> bool" where
  "matched v = (recB v \<noteq> None)"

text \<open>
  \<^verbatim>\<open>interval_score\<close>:
  \<^verbatim>\<open>
  s = float(2*ol_width)/float(len_a+len_b)
  if density:
      ...
      s = s * den_a * den_b
  \<close>
  Both integers are converted to floats and the quotient is rounded; past the
  assertions it is at most the numerator, so it is finite. The weighting by the normal
  density is a library computation; it is the parameter \<open>dens\<close>.
\<close>

definition interval_score ::
  "((int \<times> int) \<Rightarrow> (int \<times> int) \<Rightarrow> rat) \<Rightarrow> variant \<Rightarrow> bool \<Rightarrow> py_error + rat" where
  "interval_score dens v density =
     (case get_conf_interval (recA v) 50 of
        Inl e \<Rightarrow> Inl e
      | Inr iv_a \<Rightarrow>
     (case recB v of
        None \<Rightarrow> Inl AttributeError
      | Some b \<Rightarrow>
     (case get_conf_interval b 50 of
        Inl e \<Rightarrow> Inl e
      | Inr iv_b \<Rightarrow>
         (let ol_coords = get_overlap_coords iv_a iv_b;
              ol_width = snd ol_coords - fst ol_coords;
              len_a = snd iv_a - fst iv_a;
              len_b = snd iv_b - fst iv_b
          in if \<not> ol_width > 0 then Inl AssertionError
             else if \<not> len_a > 0 then Inl AssertionError
             else if \<not> len_b > 0 then Inl AssertionError
             else
               (case py_float (2 * ol_width) of
                  Inl e \<Rightarrow> Inl e
                | Inr x \<Rightarrow>
               (case py_float (len_a + len_b) of
                  Inl e \<Rightarrow> Inl e
                | Inr y \<Rightarrow>
                  (let s = double_round (x / y)
                   in if density
                      then Inr (double_round
                             (double_round
                                (s * (if ol_width < len_a then dens iv_a ol_coords else 1))
                              * (if ol_width < len_b then dens iv_b ol_coords else 1)))
                      else Inr s)))))))"

definition score :: "((int \<times> int) \<Rightarrow> (int \<times> int) \<Rightarrow> rat) \<Rightarrow> variant \<Rightarrow> bool \<Rightarrow> py_error + rat" where
  "score dens v density =
     (if matched v
      then (case kind v of SNV \<Rightarrow> Inr 1 | _ \<Rightarrow> interval_score dens v density)
      else Inr 0)"

text \<open>\<^verbatim>\<open>not rec.FILTER\<close>: true for \<^verbatim>\<open>None\<close> and for the empty list.\<close>

definition filter_empty :: "vcf_record \<Rightarrow> bool" where
  "filter_empty r = (case FILTER r of None \<Rightarrow> True | Some fs \<Rightarrow> fs = [])"

definition has_pass :: "variant \<Rightarrow> bool" where
  "has_pass v =
     (case recB v of
        None \<Rightarrow> (if filter_empty (recA v) then True else False)
      | Some b \<Rightarrow> (if filter_empty (recA v) \<or> filter_empty b then True else False))"

definition both_pass :: "variant \<Rightarrow> bool" where
  "both_pass v =
     (case recB v of
        None \<Rightarrow> False
      | Some b \<Rightarrow> (if filter_empty (recA v) \<and> filter_empty b then True else False))"

section \<open>The matching predicates\<close>

definition is_upper :: "char \<Rightarrow> bool" where
  "is_upper c = (65 \<le> (of_char c :: nat) \<and> (of_char c :: nat) \<le> 90)"

text \<open>\<^verbatim>\<open>search('^[A-Z]\[', alt)\<close> and \<^verbatim>\<open>search('^\[', alt)\<close>, for either bracket.\<close>

fun base_then :: "char \<Rightarrow> string \<Rightarrow> bool" where
  "base_then br (c # d # _) = (is_upper c \<and> d = br)"
| "base_then br _ = False"

fun starts_with :: "char \<Rightarrow> string \<Rightarrow> bool" where
  "starts_with br (c # _) = (c = br)"
| "starts_with br [] = False"

definition orientSV :: "string \<Rightarrow> string" where
  "orientSV alt =
     (if base_then (CHR ''['') alt then ''right_of_p_after_t''
      else if base_then (CHR '']'') alt then ''left_of_p_after_t''
      else if starts_with (CHR '']'') alt then ''left_of_p_before_t''
      else if starts_with (CHR ''['') alt then ''right_of_p_before_t''
      else alt)"

text \<open>
  \<^verbatim>\<open>vcfIntervalMatch\<close>: the test is \<^verbatim>\<open>sum(get_overlap_coords(iv_A, iv_B)) > 0.0\<close>,
  the sum of the two coordinates of the overlap.
\<close>

definition vcfIntervalMatch :: "vcf_record \<Rightarrow> vcf_record \<Rightarrow> py_error + bool" where
  "vcfIntervalMatch a b =
     (if SVTYPE (INFO a) \<noteq> SVTYPE (INFO b) then Inl AssertionError
      else
     (case get_conf_interval a 50 of
        Inl e \<Rightarrow> Inl e
      | Inr iv_A \<Rightarrow>
     (case get_conf_interval b 50 of
        Inl e \<Rightarrow> Inl e
      | Inr iv_B \<Rightarrow>
         (let ol = get_overlap_coords iv_A iv_B
          in if fst ol + snd ol > 0 then Inr True else Inr False))))"

text \<open>
  \<^verbatim>\<open>vcfVariantMatch\<close>: three tests in turn, each returning \<^verbatim>\<open>True\<close> when it
  succeeds and falling through otherwise. \<^verbatim>\<open>recA.ALT[0]\<close> raises on an empty
  list; \<^verbatim>\<open>and\<close> is short-circuit, so the interval test runs only for equal
  orientations.
\<close>

definition vcfVariantMatch :: "vcf_record \<Rightarrow> vcf_record \<Rightarrow> py_error + bool" where
  "vcfVariantMatch a b =
     (if is_snp a \<and> is_snp b \<and> POS a = POS b \<and> REF a = REF b \<and> ALT a = ALT b
      then Inr True
      else if is_indel a \<and> is_indel b \<and> REF a = REF b \<and> ALT a = ALT b
      then Inr True
      else if is_sv a \<and> is_sv b \<and> SVTYPE (INFO a) = SVTYPE (INFO b)
                \<and> SVTYPE (INFO b) = Some ''BND''
      then (case ALT a of
              [] \<Rightarrow> Inl IndexError
            | altA # _ \<Rightarrow>
           (case ALT b of
              [] \<Rightarrow> Inl IndexError
            | altB # _ \<Rightarrow>
                if orientSV altA = orientSV altB
                then (case vcfIntervalMatch a b of
                        Inl e \<Rightarrow> Inl e
                      | Inr m \<Rightarrow> if m then Inr True else Inr False)
                else Inr False))
      else Inr False)"

section \<open>One directional comparison\<close>

text \<open>
  \<^verbatim>\<open>sv_uid\<close> joins the printed fields of the record with commas; the string is the
  record's \<open>uid_text\<close>.
\<close>

type_synonym uid = string

definition sv_uid :: "vcf_record \<Rightarrow> uid" where
  "sv_uid r = uid_text r"

text \<open>The result of a pass: \<^verbatim>\<open>Comparison.vartype\<close>, a list of entries per type.\<close>

type_synonym comparison = "vkind \<Rightarrow> variant list"

definition Comparison_init :: comparison where
  "Comparison_init = (\<lambda>_. [])"

definition Comparison_matched :: "comparison \<Rightarrow> vkind \<Rightarrow> int" where
  "Comparison_matched c vtype = foldl (\<lambda>x y. x + (if matched y then 1 else 0)) 0 (c vtype)"

definition altmatched :: "comparison \<Rightarrow> vkind \<Rightarrow> int" where
  "altmatched c vtype = foldl (\<lambda>x y. x + int (length (altmatch y))) 0 (c vtype)"

definition count_agree_pass :: "comparison \<Rightarrow> vkind \<Rightarrow> int" where
  "count_agree_pass c vtype = foldl (\<lambda>x y. x + (if both_pass y then 1 else 0)) 0 (c vtype)"

definition count_agree_fail :: "comparison \<Rightarrow> vkind \<Rightarrow> int" where
  "count_agree_fail c vtype =
     foldl (\<lambda>x y. x + (if has_pass y = False then 1 else 0)) 0 (c vtype)"

definition count_disagree_pass :: "comparison \<Rightarrow> vkind \<Rightarrow> int" where
  "count_disagree_pass c vtype =
     foldl (\<lambda>x y. x + (if matched y \<and> has_pass y \<and> \<not> both_pass y then 1 else 0)) 0 (c vtype)"

definition interval_kind :: "vkind \<Rightarrow> bool" where
  "interval_kind vtype = (vtype = INDEL \<or> vtype = SV \<or> vtype = CNV)"

text \<open>
  The loop over the candidates of one record of source A:
  \<^verbatim>\<open>
  for recB in h_interval_vcfB.fetch(recA.CHROM, w_start, w_end):
      if vcfVariantMatch(recA, recB):
          if match:
              variant.altmatch.append(recB)
          else:
              assert variant.recB is None
              if vtype in ('INDEL','SV','CNV') and sv_uid(recB) in used_B_interval:
                  variant.altmatch.append(recB)
              elif variant.set_left(recB):
                  used_B_interval[sv_uid(recB)] = recA
                  match = True
  \<close>
  The state is the entry, the ledger \<^verbatim>\<open>used_B_interval\<close> and the flag \<^verbatim>\<open>match\<close>.
\<close>

type_synonym ledger = "uid \<rightharpoonup> vcf_record"

fun match_candidates ::
  "vkind \<Rightarrow> vcf_record \<Rightarrow> vcf_record list \<Rightarrow> variant \<times> ledger \<times> bool
     \<Rightarrow> py_error + (variant \<times> ledger \<times> bool)" where
  "match_candidates vtype a [] st = Inr st"
| "match_candidates vtype a (b # bs) (v, used, match) =
     (case vcfVariantMatch a b of
        Inl e \<Rightarrow> Inl e
      | Inr eligible \<Rightarrow>
          if \<not> eligible then match_candidates vtype a bs (v, used, match)
          else if match
          then match_candidates vtype a bs (v\<lparr>altmatch := altmatch v @ [b]\<rparr>, used, match)
          else if recB v \<noteq> None then Inl AssertionError
          else if interval_kind vtype \<and> used (sv_uid b) \<noteq> None
          then match_candidates vtype a bs (v\<lparr>altmatch := altmatch v @ [b]\<rparr>, used, match)
          else (case set_left v b of
                  (v', True) \<Rightarrow> match_candidates vtype a bs (v', used(sv_uid b \<mapsto> a), True)
                | (v', False) \<Rightarrow> match_candidates vtype a bs (v', used, match)))"

text \<open>
  The SNV cursor of \<^verbatim>\<open>faster_snv\<close>. At the start it is moved to the first SNV
  of source B; when B has none it stays on the last record read, and when B is empty
  the variable is never bound.
\<close>

fun skip_to_snp :: "vcf_record \<Rightarrow> vcf_record list \<Rightarrow> vcf_record \<times> vcf_record list" where
  "skip_to_snp cur [] = (cur, [])"
| "skip_to_snp cur (x # xs) = (if is_snp cur then (cur, x # xs) else skip_to_snp x xs)"

definition init_cursor :: "vcf_record list \<Rightarrow> vcf_record option \<times> vcf_record list" where
  "init_cursor src =
     (case src of [] \<Rightarrow> (None, []) | b # bs \<Rightarrow> (case skip_to_snp b bs of (c, r) \<Rightarrow> (Some c, r)))"

text \<open>
  \<^verbatim>\<open>
  while snv_recB.CHROM != recA.CHROM or snv_recB.POS < recA.POS:
      try:
          snv_recB = h_snv_vcfB.next()
          if vcfVariantMatch(recA, snv_recB):
              variant.set_left(snv_recB)
              match = True
      except StopIteration:
          break
  \<close>
\<close>

fun advance_cursor ::
  "vcf_record \<Rightarrow> variant \<Rightarrow> vcf_record \<Rightarrow> vcf_record list
     \<Rightarrow> py_error + (variant \<times> vcf_record \<times> vcf_record list)" where
  "advance_cursor a v cur [] = Inr (v, cur, [])"
| "advance_cursor a v cur (x # xs) =
     (if CHROM cur \<noteq> CHROM a \<or> POS cur < POS a
      then (case vcfVariantMatch a x of
              Inl e \<Rightarrow> Inl e
            | Inr m \<Rightarrow> advance_cursor a (if m then fst (set_left v x) else v) x xs)
      else Inr (v, cur, x # xs))"

definition classify :: "vcf_record \<Rightarrow> vkind option" where
  "classify a =
     (if is_snp a then Some SNV
      else if is_indel a then Some INDEL
      else if is_sv a \<and> SVTYPE (INFO a) = Some ''BND'' then Some SV
      else None)"

definition window_of :: "int \<Rightarrow> int \<Rightarrow> vkind \<Rightarrow> int" where
  "window_of w_indel w_sv vtype = (case vtype of INDEL \<Rightarrow> w_indel | SV \<Rightarrow> w_sv | _ \<Rightarrow> 0)"

record pass_state =
  result :: comparison
  used_B_interval :: ledger
  snv_recB :: "vcf_record option"
  snv_rest :: "vcf_record list"

text \<open>
  The body of \<^verbatim>\<open>for recA in h_vcfA\<close>. The two conditionals of the source exclude
  each other (the first needs \<^verbatim>\<open>not faster_snv\<close> or an interval type, the second
  \<^verbatim>\<open>faster_snv\<close> and an SNV), so they are the two branches here. A record of no
  known type leaves the state as it is.
\<close>

definition compare_record ::
  "vcf_source \<Rightarrow> int \<Rightarrow> int \<Rightarrow> bool \<Rightarrow> vcf_record \<Rightarrow> pass_state \<Rightarrow> py_error + pass_state" where
  "compare_record h_interval_vcfB w_indel w_sv faster_snv a st =
     (case classify a of
        None \<Rightarrow> Inr st
      | Some vtype \<Rightarrow>
          if \<not> faster_snv \<or> interval_kind vtype
          then
            (let w = window_of w_indel w_sv vtype;
                 w_start = (if rec_start a - w < 1 then 1 else rec_start a - w);
                 w_end = rec_end a + w
             in case fetch h_interval_vcfB (CHROM a) w_start w_end of
                  Inl e \<Rightarrow> Inl e
                | Inr cands \<Rightarrow>
               (case match_candidates vtype a cands
                       (new_variant vtype a, used_B_interval st, False) of
                  Inl e \<Rightarrow> Inl e
                | Inr (v, used, _) \<Rightarrow>
                    Inr (st\<lparr>result := (result st)(vtype := result st vtype @ [v]),
                            used_B_interval := used\<rparr>)))
          else
            (case snv_recB st of
               None \<Rightarrow> Inl NameError
             | Some cur \<Rightarrow>
            (case vcfVariantMatch a cur of
               Inl e \<Rightarrow> Inl e
             | Inr True \<Rightarrow>
                 Inr (st\<lparr>result := (result st)
                           (vtype := result st vtype @ [fst (set_left (new_variant vtype a) cur)])\<rparr>)
             | Inr False \<Rightarrow>
            (case advance_cursor a (new_variant vtype a) cur (snv_rest st) of
               Inl e \<Rightarrow> Inl e
             | Inr (v, cur', rest') \<Rightarrow>
                 Inr (st\<lparr>result := (result st)(vtype := result st vtype @ [v]),
                         snv_recB := Some cur', snv_rest := rest'\<rparr>)))))"

fun compare_records ::
  "vcf_source \<Rightarrow> int \<Rightarrow> int \<Rightarrow> bool \<Rightarrow> vcf_record list \<Rightarrow> pass_state \<Rightarrow> py_error + pass_state" where
  "compare_records h_interval_vcfB w_indel w_sv faster_snv [] st = Inr st"
| "compare_records h_interval_vcfB w_indel w_sv faster_snv (a # as) st =
     (case compare_record h_interval_vcfB w_indel w_sv faster_snv a st of
        Inl e \<Rightarrow> Inl e
      | Inr st' \<Rightarrow> compare_records h_interval_vcfB w_indel w_sv faster_snv as st')"

text \<open>
  \<^verbatim>\<open>compareVCFs(h_vcfA, h_interval_vcfB, w_indel=50, w_sv=1000, mask=None, faster_snv=False)\<close>:
  the records of handle A are iterated; handle B answers the region queries, and a
  second reader of the same file gives the records for the SNV cursor. The mask is
  read and ignored by the source.
\<close>

definition compareVCFs ::
  "vcf_source \<Rightarrow> vcf_source \<Rightarrow> int \<Rightarrow> int \<Rightarrow> bool \<Rightarrow> py_error + comparison" where
  "compareVCFs h_vcfA h_interval_vcfB w_indel w_sv faster_snv =
     (case init_cursor (records h_interval_vcfB) of (cur, rest) \<Rightarrow>
     (case compare_records h_interval_vcfB w_indel w_sv faster_snv (records h_vcfA)
             \<lparr>result = Comparison_init, used_B_interval = Map.empty,
              snv_recB = cur, snv_rest = rest\<rparr> of
        Inl e \<Rightarrow> Inl e
      | Inr st \<Rightarrow> Inr (result st)))"

section \<open>Notions used to state the properties\<close>

text \<open>A record of exactly one type, as the type tag of the specification's data model.\<close>

definition snv_record :: "vcf_record \<Rightarrow> bool" where
  "snv_record r = (is_snp r \<and> \<not> is_indel r \<and> \<not> is_sv r)"

definition sv_record :: "vcf_record \<Rightarrow> bool" where
  "sv_record r = (is_sv r \<and> \<not> is_snp r \<and> \<not> is_indel r)"

text \<open>
  Eligibility of two SNVs as section 4.3 of the specification words it: identical
  position, identical reference allele, identical alternate allele set.
\<close>

definition claimed_snv_match :: "vcf_record \<Rightarrow> vcf_record \<Rightarrow> bool" where
  "claimed_snv_match a b =
     (CHROM a = CHROM b \<and> POS a = POS b \<and> REF a = REF b \<and> set (ALT a) = set (ALT b))"

text \<open>An alternate allele that one of the four bracket patterns of \<^verbatim>\<open>orientSV\<close> matches.\<close>

definition recognised :: "string \<Rightarrow> bool" where
  "recognised alt = (base_then (CHR ''['') alt \<or> base_then (CHR '']'') alt
                     \<or> starts_with (CHR '']'') alt \<or> starts_with (CHR ''['') alt)"

text \<open>
  The offsets of a \<^verbatim>\<open>CIPOS\<close> or \<^verbatim>\<open>CIEND\<close> annotation in closed form: the absolute
  values of the low and the high entry (one entry serves as both), 0 when absent.
\<close>

fun ci_low :: "int list option \<Rightarrow> int" where
  "ci_low (Some (a # _)) = \<bar>a\<bar>"
| "ci_low _ = 0"

fun ci_high :: "int list option \<Rightarrow> int" where
  "ci_high (Some [a, b]) = \<bar>b\<bar>"
| "ci_high (Some (a # _)) = \<bar>a\<bar>"
| "ci_high _ = 0"

fun end_first :: "info_end \<Rightarrow> int" where
  "end_first (END_int e) = e"
| "end_first (END_list (e # _)) = e"
| "end_first (END_list []) = 0"

definition info_lists_ok :: "vcf_record \<Rightarrow> bool" where
  "info_lists_ok r = (CIPOS (INFO r) \<noteq> Some [] \<and> CIEND (INFO r) \<noteq> Some []
                      \<and> END (INFO r) \<noteq> Some (END_list []))"

text \<open>
  The confidence interval as section 4.1 of the specification words it: from
  \<open>(pos, pos + 1)\<close>, the lower bound less \<open>|CIPOS_low|\<close>; \<^verbatim>\<open>END\<close> as the raw upper
  bound when present, otherwise \<open>pos + 1\<close> with the \<^verbatim>\<open>CIPOS\<close> upper offset; the upper
  bound further expanded by \<^verbatim>\<open>CIEND\<close> when present; both bounds widened by the pad
  for an INDEL.
\<close>

definition claimed_conf_interval :: "vcf_record \<Rightarrow> int \<Rightarrow> int \<times> int" where
  "claimed_conf_interval r w_indel =
     (let lower = POS r - ci_low (CIPOS (INFO r));
          raw_upper = (case END (INFO r) of
                         Some ev \<Rightarrow> end_first ev
                       | None \<Rightarrow> POS r + 1 + ci_high (CIPOS (INFO r)));
          upper = raw_upper + ci_high (CIEND (INFO r));
          pad = (if is_indel r then w_indel else 0)
      in (lower - pad, upper + pad))"

text \<open>Eligibility of a candidate, and whether the ledger leaves it free for a primary match.\<close>

definition eligible :: "vcf_record \<Rightarrow> vcf_record \<Rightarrow> bool" where
  "eligible a b = (vcfVariantMatch a b = Inr True)"

definition match_ok :: "vcf_record \<Rightarrow> vcf_record \<Rightarrow> bool" where
  "match_ok a b = (vcfVariantMatch a b = Inr True \<or> vcfVariantMatch a b = Inr False)"

definition claimable :: "vkind \<Rightarrow> ledger \<Rightarrow> vcf_record \<Rightarrow> bool" where
  "claimable vtype used b = (\<not> (interval_kind vtype \<and> used (sv_uid b) \<noteq> None))"

fun remove_first :: "('a \<Rightarrow> bool) \<Rightarrow> 'a list \<Rightarrow> 'a list" where
  "remove_first P [] = []"
| "remove_first P (x # xs) = (if P x then xs else x # remove_first P xs)"

text \<open>The region query a pass makes for a record of source A, and what it returns.\<close>

definition region_candidates ::
  "vcf_source \<Rightarrow> int \<Rightarrow> int \<Rightarrow> vkind \<Rightarrow> vcf_record \<Rightarrow> py_error + vcf_record list" where
  "region_candidates h_interval_vcfB w_indel w_sv vtype a =
     fetch h_interval_vcfB (CHROM a)
       (if rec_start a - window_of w_indel w_sv vtype < 1 then 1
        else rec_start a - window_of w_indel w_sv vtype)
       (rec_end a + window_of w_indel w_sv vtype)"

definition candidates_of ::
  "vcf_source \<Rightarrow> int \<Rightarrow> int \<Rightarrow> vkind \<Rightarrow> vcf_record \<Rightarrow> vcf_record list" where
  "candidates_of h_interval_vcfB w_indel w_sv vtype a =
     (case region_candidates h_interval_vcfB w_indel w_sv vtype a of
        Inl _ \<Rightarrow> [] | Inr cands \<Rightarrow> cands)"

text \<open>
  A pass in which no region query and no test of a candidate fails.
\<close>

definition pass_ok :: "vcf_source \<Rightarrow> vcf_source \<Rightarrow> int \<Rightarrow> int \<Rightarrow> bool" where
  "pass_ok h_vcfA h_interval_vcfB w_indel w_sv =
     (\<forall>a\<in>set (records h_vcfA).
        case classify a of
          None \<Rightarrow> True
        | Some vtype \<Rightarrow>
            (case region_candidates h_interval_vcfB w_indel w_sv vtype a of
               Inl _ \<Rightarrow> False
             | Inr cands \<Rightarrow> \<forall>b\<in>set cands. match_ok a b))"

text \<open>
  The entries of a directional pass as sections 3 and 4.3 of the specification word
  them. The records of source A are taken in order, with the identities claimed so far
  in the pass (none at the start). For a record of a known type, the eligible
  candidates are taken in the order of the region query; the first one not yet claimed
  (claims count for INDEL, SV and CNV only) is the primary match and is claimed; every
  other eligible candidate goes to the alternate matches.
\<close>

fun claimed_pass ::
  "vcf_source \<Rightarrow> int \<Rightarrow> int \<Rightarrow> vcf_record list \<Rightarrow> uid list \<Rightarrow> (vkind \<times> variant) list" where
  "claimed_pass h_interval_vcfB w_indel w_sv [] claimed = []"
| "claimed_pass h_interval_vcfB w_indel w_sv (a # as) claimed =
     (case classify a of
        None \<Rightarrow> claimed_pass h_interval_vcfB w_indel w_sv as claimed
      | Some vtype \<Rightarrow>
          (vtype,
           \<lparr>kind = vtype, recA = a,
            recB = List.find (\<lambda>b. \<not> (interval_kind vtype \<and> sv_uid b \<in> set claimed))
                     (filter (eligible a) (candidates_of h_interval_vcfB w_indel w_sv vtype a)),
            altmatch = remove_first (\<lambda>b. \<not> (interval_kind vtype \<and> sv_uid b \<in> set claimed))
                     (filter (eligible a) (candidates_of h_interval_vcfB w_indel w_sv vtype a))\<rparr>)
          # claimed_pass h_interval_vcfB w_indel w_sv as
              (case List.find (\<lambda>b. \<not> (interval_kind vtype \<and> sv_uid b \<in> set claimed))
                      (filter (eligible a) (candidates_of h_interval_vcfB w_indel w_sv vtype a)) of
                 None \<Rightarrow> claimed
               | Some b \<Rightarrow> sv_uid b # claimed))"

definition entries_of :: "vkind \<Rightarrow> (vkind \<times> variant) list \<Rightarrow> variant list" where
  "entries_of vtype es = map snd (filter (\<lambda>p. fst p = vtype) es)"

text \<open>The entries, and the matched count, of a pass that may have failed.\<close>

definition entries :: "py_error + comparison \<Rightarrow> vkind \<Rightarrow> py_error + variant list" where
  "entries res vtype = (case res of Inl e \<Rightarrow> Inl e | Inr c \<Rightarrow> Inr (c vtype))"













section \<open>A tabix-indexed file as a source\<close>

text \<open>
  Modelled from the spec: the region query belongs to the reader library (section 6:
  the records whose genomic extent intersects the window). The examples use this
  instance of it, after the tabix index the program's input files carry: a record
  extends from its zero-based start to the end of its reference allele, or to
  \<^verbatim>\<open>INFO/END\<close> when that lies beyond the start; the window is zero-based and
  half-open; the records come in file order; a chromosome the file does not have
  raises \<^verbatim>\<open>ValueError\<close>.
\<close>

definition extent_end :: "vcf_record \<Rightarrow> int" where
  "extent_end r =
     (case END (INFO r) of
        None \<Rightarrow> rec_end r
      | Some ev \<Rightarrow> if rec_start r < end_first ev then end_first ev else rec_end r)"

definition tabix_fetch :: "vcf_record list \<Rightarrow> string \<Rightarrow> int \<Rightarrow> int \<Rightarrow> py_error + vcf_record list" where
  "tabix_fetch recs chrom s e =
     (if chrom \<in> set (map CHROM recs)
      then Inr (filter (\<lambda>r. CHROM r = chrom \<and> rec_start r < e \<and> s < extent_end r) recs)
      else Inl ValueError)"

definition tabix_source :: "vcf_record list \<Rightarrow> vcf_source" where
  "tabix_source recs = \<lparr>records = recs, fetch = tabix_fetch recs\<rparr>"

section \<open>Example records\<close>

text \<open>
  In the examples the identity string of a record is abbreviated to the fields that
  tell the example records apart: chromosome, position, identifier, alleles and the
  annotation that differs.
\<close>

definition no_info :: info where
  "no_info = \<lparr>CIPOS = None, CIEND = None, END = None, SVTYPE = None\<rparr>"

definition snv_rec :: "string \<Rightarrow> int \<Rightarrow> string \<Rightarrow> string list \<Rightarrow> string \<Rightarrow> vcf_record" where
  "snv_rec chrom pos ref alts u =
     \<lparr>CHROM = chrom, POS = pos, ID = None, REF = ref, ALT = alts, QUAL = None,
      FILTER = Some [], INFO = no_info, uid_text = u,
      is_snp = True, is_indel = False, is_sv = False\<rparr>"

definition indel_rec :: "string \<Rightarrow> int \<Rightarrow> string \<Rightarrow> string \<Rightarrow> info \<Rightarrow> string \<Rightarrow> vcf_record" where
  "indel_rec chrom pos ref alt ann u =
     \<lparr>CHROM = chrom, POS = pos, ID = None, REF = ref, ALT = [alt], QUAL = None,
      FILTER = Some [], INFO = ann, uid_text = u,
      is_snp = False, is_indel = True, is_sv = False\<rparr>"

definition bnd_rec :: "string \<Rightarrow> int \<Rightarrow> string \<Rightarrow> info \<Rightarrow> string \<Rightarrow> vcf_record" where
  "bnd_rec chrom pos alt ann u =
     \<lparr>CHROM = chrom, POS = pos, ID = None, REF = ''N'', ALT = [alt], QUAL = None,
      FILTER = Some [], INFO = ann\<lparr>SVTYPE := Some ''BND''\<rparr>, uid_text = u,
      is_snp = False, is_indel = False, is_sv = True\<rparr>"

text \<open>Two SNVs at one site with different alternate alleles, a second listing of the
  first, the same site on another chromosome, an SNV far away, and two listings of a
  site with two alternate alleles in different orders.\<close>

definition snv_AG :: vcf_record where
  "snv_AG = snv_rec ''chr1'' 100 ''A'' [''G''] ''chr1,100,None,A,[G]''"

definition snv_AT :: vcf_record where
  "snv_AT = snv_rec ''chr1'' 100 ''A'' [''T''] ''chr1,100,None,A,[T]''"

definition snv_AG_rs :: vcf_record where
  "snv_AG_rs = (snv_rec ''chr1'' 100 ''A'' [''G''] ''chr1,100,rs1,A,[G]'')\<lparr>ID := Some ''rs1''\<rparr>"

definition snv_AG_chr2 :: vcf_record where
  "snv_AG_chr2 = snv_rec ''chr2'' 100 ''A'' [''G''] ''chr2,100,None,A,[G]''"

definition snv_far :: vcf_record where
  "snv_far = snv_rec ''chr1'' 5000 ''A'' [''G''] ''chr1,5000,None,A,[G]''"

definition snv_A_GT :: vcf_record where
  "snv_A_GT = snv_rec ''chr1'' 100 ''A'' [''G'', ''T''] ''chr1,100,None,A,[G, T]''"

definition snv_A_TG :: vcf_record where
  "snv_A_TG = snv_rec ''chr1'' 100 ''A'' [''T'', ''G''] ''chr1,100,None,A,[T, G]''"

text \<open>An SNV that fails a filter.\<close>

definition failing_snv :: vcf_record where
  "failing_snv = (snv_rec ''chr1'' 100 ''A'' [''G''] ''chr1,100,None,A,[G],q10'')
                   \<lparr>FILTER := Some [''q10'']\<rparr>"

text \<open>The two deletions of example scenario 3 of the specification.\<close>

definition indel_a :: vcf_record where
  "indel_a = indel_rec ''chr1'' 200 ''ACGTA'' ''A''
               (no_info\<lparr>CIPOS := Some [-10, 10], END := Some (END_int 205)\<rparr>)
               ''chr1,200,None,ACGTA,[A]''"

definition indel_b :: vcf_record where
  "indel_b = indel_rec ''chr1'' 230 ''ACGTA'' ''A'' (no_info\<lparr>END := Some (END_int 235)\<rparr>)
               ''chr1,230,None,ACGTA,[A]''"

definition dice_entry :: variant where
  "dice_entry = \<lparr>kind = INDEL, recA = indel_a, recB = Some indel_b, altmatch = []\<rparr>"

text \<open>A deletion whose \<^verbatim>\<open>END\<close> lies far before its position.\<close>

definition short_indel :: vcf_record where
  "short_indel = indel_rec ''chr1'' 500 ''AT'' ''A'' (no_info\<lparr>END := Some (END_int 300)\<rparr>)
                   ''chr1,500,None,AT,[A]''"

definition short_entry :: variant where
  "short_entry = \<lparr>kind = INDEL, recA = short_indel, recB = Some short_indel, altmatch = []\<rparr>"

text \<open>Breakend records: with \<^verbatim>\<open>CIEND\<close> and no \<^verbatim>\<open>END\<close>; with \<^verbatim>\<open>END\<close> before the
  position; at the first base with a one-sided \<^verbatim>\<open>CIPOS\<close>; with a symbolic allele;
  and two that span \<open>2 ^ 61\<close> and \<open>2 ^ 61 - 1\<close> positions.\<close>

definition ciend_only_rec :: vcf_record where
  "ciend_only_rec = bnd_rec ''chr1'' 100 ''N[chr2:500['' (no_info\<lparr>CIEND := Some [-5, 5]\<rparr>)
                      ''chr1,100,None,N,[N[chr2:500[],CIEND=-5,5''"

definition end_before_pos_rec :: vcf_record where
  "end_before_pos_rec = bnd_rec ''chr1'' 100 ''N[chr2:500['' (no_info\<lparr>END := Some (END_int 50)\<rparr>)
                          ''chr1,100,None,N,[N[chr2:500[],END=50''"

definition left_ci_rec :: vcf_record where
  "left_ci_rec = bnd_rec ''chr1'' 1 ''N[chr2:500['' (no_info\<lparr>CIPOS := Some [-10, 0]\<rparr>)
                   ''chr1,1,None,N,[N[chr2:500[],CIPOS=-10,0''"

definition symbolic_a :: vcf_record where
  "symbolic_a = bnd_rec ''chr1'' 100 ''<BND>'' (no_info\<lparr>CIPOS := Some [-10, 10]\<rparr>)
                  ''chr1,100,None,N,[<BND>]''"

definition symbolic_b :: vcf_record where
  "symbolic_b = bnd_rec ''chr1'' 105 ''<BND>'' no_info ''chr1,105,None,N,[<BND>]''"

definition huge_a :: vcf_record where
  "huge_a = bnd_rec ''chr1'' 1 ''N[chr2:500['' (no_info\<lparr>END := Some (END_int (2 ^ 61 + 1))\<rparr>)
              ''chr1,1,None,N,[N[chr2:500[],END=2305843009213693953''"

definition huge_b :: vcf_record where
  "huge_b = bnd_rec ''chr1'' 1 ''N[chr2:500['' (no_info\<lparr>END := Some (END_int (2 ^ 61))\<rparr>)
              ''chr1,1,None,N,[N[chr2:500[],END=2305843009213693952''"

definition huge_entry :: variant where
  "huge_entry = \<lparr>kind = SV, recA = huge_a, recB = Some huge_b, altmatch = []\<rparr>"

text \<open>Four insertions of the same alleles, each within the window of the next.\<close>

definition ins_100 :: vcf_record where
  "ins_100 = indel_rec ''chr1'' 100 ''A'' ''AT'' no_info ''chr1,100,None,A,[AT]''"

definition ins_105 :: vcf_record where
  "ins_105 = indel_rec ''chr1'' 105 ''A'' ''AT'' no_info ''chr1,105,None,A,[AT]''"

definition ins_110 :: vcf_record where
  "ins_110 = indel_rec ''chr1'' 110 ''A'' ''AT'' no_info ''chr1,110,None,A,[AT]''"

definition ins_120 :: vcf_record where
  "ins_120 = indel_rec ''chr1'' 120 ''A'' ''AT'' no_info ''chr1,120,None,A,[AT]''"

section \<open>The confidence interval\<close>

lemma ci_offsets_eq:
  "c \<noteq> Some [] \<Longrightarrow> ci_offsets c = Inr (ci_low c, ci_high c)"
  by (induction c rule: ci_offsets.induct) auto

lemma end_value_eq:
  "ev \<noteq> END_list [] \<Longrightarrow> end_value ev = Inr (end_first ev)"
  by (induction ev rule: end_value.induct) auto


text \<open>
  Claim C7, as stated: the interval is the one section 4.1 words, with the upper bound
  expanded by \<^verbatim>\<open>CIEND\<close> whenever \<^verbatim>\<open>CIEND\<close> is present. It fails for a record that
  carries \<^verbatim>\<open>CIEND\<close> and no \<^verbatim>\<open>END\<close>: the program leaves the upper bound at
  \<open>pos + 1\<close>.
\<close>

theorem get_conf_interval_counterexample:
  "get_conf_interval ciend_only_rec 50 = Inr (100, 101)
   \<and> claimed_conf_interval ciend_only_rec 50 = (100, 106)"
  by code_simp

text \<open>
  Claim C7, amended: for a record whose list annotations are not empty, the interval
  is \<open>(pos - |CIPOS_low| - pad, upper + pad)\<close>, where \<open>upper\<close> is
  \<open>END + |CIEND_high|\<close> when \<^verbatim>\<open>END\<close> is present and \<open>pos + 1 + |CIPOS_high|\<close>
  otherwise (\<^verbatim>\<open>CIEND\<close> is read only together with \<^verbatim>\<open>END\<close>), and \<open>pad\<close> is
  \<open>w_indel\<close> for an INDEL and 0 for any other record.
\<close>

theorem get_conf_interval_amended:
  assumes "info_lists_ok r"
  shows "get_conf_interval r w_indel =
           Inr (POS r - ci_low (CIPOS (INFO r)) - (if is_indel r then w_indel else 0),
                (case END (INFO r) of
                   Some ev \<Rightarrow> end_first ev + ci_high (CIEND (INFO r))
                 | None \<Rightarrow> POS r + 1 + ci_high (CIPOS (INFO r)))
                + (if is_indel r then w_indel else 0))"
  using assms
  by (auto simp: get_conf_interval_def info_lists_ok_def ci_offsets_eq end_value_eq
           split: option.splits)

theorem get_conf_interval_amended_witness:
  "get_conf_interval indel_a 50 = Inr (140, 255)
   \<and> get_conf_interval ciend_only_rec 50 = Inr (100, 101)"
proof -
  have o1: "info_lists_ok indel_a" by code_simp
  have o2: "info_lists_ok ciend_only_rec" by code_simp
  have r1: "get_conf_interval indel_a 50 = Inr (140, 255)"
    using get_conf_interval_amended[OF o1, of 50]
    by (simp add: indel_a_def indel_rec_def no_info_def)
  have r2: "get_conf_interval ciend_only_rec 50 = Inr (100, 101)"
    using get_conf_interval_amended[OF o2, of 50]
    by (simp add: ciend_only_rec_def bnd_rec_def no_info_def)
  show ?thesis using r1 r2 by simp
qed

section \<open>Rounding to a double\<close>

lemma pos_quotient:
  assumes "0 < q" "quotient_of q = (n, d)"
  shows "0 < n" "0 < d" "q = of_int n / of_int d"
proof -
  show d: "0 < d" using assms(2) quotient_of_denom_pos by blast
  show q: "q = of_int n / of_int d" using assms(2) by (simp add: quotient_of_div)
  show "0 < n" using assms(1) d q by (simp add: zero_less_divide_iff)
qed

lemma bitlen_powi_bounds:
  assumes "0 < n"
  shows "(2::rat) powi (bitlen n - 1) \<le> of_int n" "of_int n < (2::rat) powi (bitlen n)"
proof -
  have b1: "1 \<le> bitlen n" using assms by (auto simp: bitlen_alt_def)
  from bitlen_bounds[OF assms]
  have l: "2 ^ nat (bitlen n - 1) \<le> n" and u: "n < 2 ^ nat (bitlen n)" by auto
  have "(2::rat) powi (bitlen n - 1) = 2 ^ nat (bitlen n - 1)"
    using b1 by (simp add: power_int_def)
  also have "\<dots> = of_int (2 ^ nat (bitlen n - 1))" by simp
  also have "\<dots> \<le> of_int n" using l by (simp only: of_int_le_iff)
  finally show "(2::rat) powi (bitlen n - 1) \<le> of_int n" .
  have "(of_int n :: rat) < of_int (2 ^ nat (bitlen n))" using u by (simp only: of_int_less_iff)
  also have "\<dots> = 2 ^ nat (bitlen n)" by simp
  also have "\<dots> = (2::rat) powi (bitlen n)" using b1 by (simp add: power_int_def)
  finally show "of_int n < (2::rat) powi (bitlen n)" .
qed

lemma ilog2_bounds:
  assumes "0 < q"
  shows "2 powi (ilog2 q) \<le> q" "q < 2 powi (ilog2 q + 1)"
proof -
  obtain n d where nd: "quotient_of q = (n, d)" by (cases "quotient_of q")
  note p = pos_quotient[OF assms nd]
  define e0 where "e0 = bitlen n - bitlen d"
  have dn: "(0::rat) < of_int d" using p(2) by simp
  have up: "q < 2 powi (e0 + 1)"
  proof -
    have "q * of_int d = of_int n" using p(3) dn by simp
    also have "\<dots> < (2::rat) powi (bitlen n)" by (rule bitlen_powi_bounds(2)[OF p(1)])
    also have "\<dots> = 2 powi (e0 + 1) * 2 powi (bitlen d - 1)"
      by (simp add: e0_def power_int_add[symmetric])
    also have "\<dots> \<le> 2 powi (e0 + 1) * of_int d"
      using bitlen_powi_bounds(1)[OF p(2)] by (intro mult_left_mono) simp_all
    finally show ?thesis using dn by simp
  qed
  have lo: "2 powi (e0 - 1) \<le> q"
  proof -
    have "2 powi (e0 - 1) * of_int d \<le> 2 powi (e0 - 1) * (2::rat) powi (bitlen d)"
      using bitlen_powi_bounds(2)[OF p(2)] by (intro mult_left_mono) simp_all
    also have "\<dots> = (2::rat) powi (bitlen n - 1)"
      by (simp add: e0_def power_int_add[symmetric])
    also have "\<dots> \<le> of_int n" by (rule bitlen_powi_bounds(1)[OF p(1)])
    also have "\<dots> = q * of_int d" using p(3) dn by simp
    finally show ?thesis using dn by simp
  qed
  have il: "ilog2 q = (if 2 powi e0 \<le> q then e0 else e0 - 1)"
    by (simp add: ilog2_def nd e0_def Let_def)
  show "2 powi (ilog2 q) \<le> q" using il lo by simp
  show "q < 2 powi (ilog2 q + 1)" using il up by (auto simp: not_le)
qed

lemma round_half_even_ge: "of_int k \<le> m \<Longrightarrow> k \<le> round_half_even m"
proof -
  assume "of_int k \<le> m"
  then have "k \<le> \<lfloor>m\<rfloor>" by (simp add: le_floor_iff)
  then show ?thesis by (auto simp: round_half_even_def Let_def)
qed

lemma round_half_even_le: "m \<le> of_int k \<Longrightarrow> round_half_even m \<le> k"
proof -
  assume a: "m \<le> of_int k"
  show ?thesis
  proof (cases "m = of_int k")
    case True
    then show ?thesis by (simp add: round_half_even_def)
  next
    case False
    with a have "m < of_int k" by simp
    then have "\<lfloor>m\<rfloor> < k" by (simp add: floor_less_iff)
    then show ?thesis by (auto simp: round_half_even_def Let_def)
  qed
qed

lemma pow2_less_exp: "(2::rat) powi a < 2 powi b \<Longrightarrow> a < b"
  using power_int_increasing[of b a "2::rat"] by (cases "a < b") auto

lemma pow2_le_exp: "(2::rat) powi a \<le> 2 powi b \<Longrightarrow> a \<le> b"
  using power_int_strict_increasing[of b a "2::rat"] by (cases "a \<le> b") auto

lemma pow2_m53: "(2::rat) powi (- 53) = 1 / 2 ^ 53"
  by (simp add: power_int_minus inverse_eq_divide)

lemma pow2_m1: "(2::rat) powi (- 1) = 1 / 2"
  by (simp add: power_int_minus inverse_eq_divide)

lemma double_round_pos_eq:
  assumes "0 < q"
  shows "double_round q
           = of_int (round_half_even (q / 2 powi (max (ilog2 q) (- 1022) - 52)))
               * 2 powi (max (ilog2 q) (- 1022) - 52)"
  using assms by (simp add: double_round_def Let_def)

lemma double_round_exact:
  assumes "0 < q" and "q / 2 powi (max (ilog2 q) (- 1022) - 52) = of_int k"
  shows "double_round q = q"
proof -
  have u: "(0::rat) < 2 powi (max (ilog2 q) (- 1022) - 52)" by simp
  have "double_round q = of_int k * 2 powi (max (ilog2 q) (- 1022) - 52)"
    using assms by (simp add: double_round_pos_eq round_half_even_def)
  also have "\<dots> = q" using assms(2) u by (simp add: field_simps)
  finally show ?thesis .
qed

lemma ilog2_int_range:
  assumes "0 < n" "n \<le> 2 ^ 53"
  shows "0 \<le> ilog2 (of_int n)" "ilog2 (of_int n) \<le> 53"
proof -
  have q: "(0::rat) < of_int n" using assms(1) by simp
  note b = ilog2_bounds[OF q]
  have "(1::rat) \<le> of_int n" using assms(1) by simp
  with b(2) have "(2::rat) powi 0 < 2 powi (ilog2 (of_int n) + 1)" by simp
  then have "0 < ilog2 (of_int n) + 1" by (rule pow2_less_exp)
  then show "0 \<le> ilog2 (of_int n)" by simp
  have "(of_int n :: rat) \<le> of_int (2 ^ 53)" using assms(2) by (simp only: of_int_le_iff)
  then have "(of_int n :: rat) \<le> 2 powi 53" by simp
  with b(1) have "(2::rat) powi (ilog2 (of_int n)) \<le> 2 powi 53" by simp
  then show "ilog2 (of_int n) \<le> 53" by (rule pow2_le_exp)
qed

text \<open>An integer of at most 53 bits is a double.\<close>

lemma double_round_int:
  assumes "0 < n" "n \<le> 2 ^ 53"
  shows "double_round (of_int n) = of_int n"
proof -
  define e where "e = ilog2 (of_int n :: rat)"
  have q: "(0::rat) < of_int n" using assms(1) by simp
  have r: "0 \<le> e" "e \<le> 53" using ilog2_int_range[OF assms] by (simp_all add: e_def)
  have m: "max e (- 1022) = e" using r by simp
  show ?thesis
  proof (cases "e = 53")
    case True
    have "(2::rat) powi 53 \<le> of_int n" using ilog2_bounds(1)[OF q] True by (simp add: e_def)
    then have "(of_int (2 ^ 53) :: rat) \<le> of_int n" by simp
    then have "2 ^ 53 \<le> n" by (simp only: of_int_le_iff)
    with assms(2) have n: "n = 2 ^ 53" by simp
    have "(of_int n :: rat) / 2 powi (max e (- 1022) - 52) = of_int (2 ^ 52)"
      by (simp add: m True n)
    then show ?thesis
      unfolding e_def by (rule double_round_exact[OF q])
  next
    case False
    with r have le: "e \<le> 52" by simp
    have "(2::rat) powi (e - 52) = inverse (2 powi (52 - e))"
      by (simp add: power_int_minus[symmetric])
    also have "(2::rat) powi (52 - e) = 2 ^ nat (52 - e)" using le by (simp add: power_int_def)
    finally have "(of_int n :: rat) / 2 powi (max e (- 1022) - 52) = of_int (n * 2 ^ nat (52 - e))"
      by (simp add: m divide_inverse)
    then show ?thesis
      unfolding e_def by (rule double_round_exact[OF q])
  qed
qed

lemma py_float_exact:
  assumes "0 < n" "n \<le> 2 ^ 53"
  shows "py_float n = Inr (of_int n)"
proof -
  have "(of_int n :: rat) \<le> of_int (2 ^ 53)" using assms(2) by (simp only: of_int_le_iff)
  then have "\<bar>of_int n :: rat\<bar> < 2 ^ 1024" using assms(1) by simp
  then show ?thesis
    by (simp add: py_float_def double_round_int[OF assms] Let_def del: of_int_abs)
qed

text \<open>The rounded quotient of two such integers, the smaller over the larger.\<close>

lemma double_round_quotient:
  fixes x y :: int
  assumes "0 < x" "x \<le> y" "y \<le> 2 ^ 53"
  shows "0 < double_round (of_int x / of_int y)"
    and "double_round (of_int x / of_int y) \<le> 1"
    and "(double_round (of_int x / of_int y) = 1) = (x = y)"
proof -
  define q :: rat where "q = of_int x / of_int y"
  define e where "e = ilog2 q"
  define u :: rat where "u = 2 powi (max e (- 1022) - 52)"
  have y: "0 < y" using assms by simp
  have ry: "(0::rat) < of_int y" using y by simp
  have qpos: "0 < q" using assms(1) ry by (simp add: q_def)
  have qle: "q \<le> 1" using assms(2) ry by (simp add: q_def)
  have upos: "0 < u" by (simp add: u_def)
  have dr: "double_round q = of_int (round_half_even (q / u)) * u"
    using double_round_pos_eq[OF qpos] by (simp add: u_def e_def)
  note b = ilog2_bounds[OF qpos, folded e_def]
  have qlow: "2 powi (- 53) \<le> q"
  proof -
    have "(of_int y :: rat) \<le> of_int (2 ^ 53)" using assms(3) by (simp only: of_int_le_iff)
    then have "(of_int y :: rat) \<le> 2 ^ 53" by simp
    moreover have "(1::rat) \<le> of_int x" using assms(1) by simp
    ultimately have "(1::rat) / 2 ^ 53 \<le> of_int x / of_int y"
      using ry by (intro frac_le) simp_all
    then show ?thesis by (simp add: q_def pow2_m53)
  qed
  have "(2::rat) powi (- 53) < 2 powi (e + 1)" using qlow b(2) by simp
  then have elow: "- 54 < e" using pow2_less_exp[of "- 53" "e + 1"] by simp
  have "(2::rat) powi e \<le> 2 powi 0" using b(1) qle by simp
  then have ehigh: "e \<le> 0" by (rule pow2_le_exp)
  have m: "max e (- 1022) = e" using elow by simp
  have u: "u = 2 powi (e - 52)" by (simp add: u_def m)
  have mlow: "of_int (2 ^ 52) \<le> q / u"
  proof -
    have "(2::rat) powi 52 * u = 2 powi e"
      unfolding u using power_int_add[of "2::rat" 52 "e - 52"] by simp
    then have "(2::rat) powi 52 * u \<le> q" using b(1) by simp
    then show ?thesis using upos by (simp add: pos_le_divide_eq)
  qed
  have nlow: "2 ^ 52 \<le> round_half_even (q / u)" by (rule round_half_even_ge[OF mlow])
  show pos: "0 < double_round (of_int x / of_int y)"
  proof -
    have "(0::int) < round_half_even (q / u)" using nlow by simp
    then have "(0::rat) < of_int (round_half_even (q / u))" by simp
    then show ?thesis using upos by (simp add: dr q_def[symmetric])
  qed
  have strict: "double_round q < 1" if lt: "x < y"
  proof -
    have q1: "q < 1" using lt ry by (simp add: q_def)
    have "(2::rat) powi e < 2 powi 0" using b(1) q1 by simp
    then have eneg: "e \<le> - 1" using pow2_less_exp[of e 0] by simp
    show ?thesis
    proof (cases "e = - 1")
      case True
      have uu: "u = 1 / 2 ^ 53" using pow2_m53 by (simp add: u True)
      have "x \<le> y - 1" using lt by simp
      then have "(of_int x :: rat) \<le> of_int (y - 1)" by (simp only: of_int_le_iff)
      then have "q \<le> (of_int y - 1) / of_int y" using ry by (simp add: q_def divide_right_mono)
      also have "\<dots> = 1 - 1 / of_int y" using ry by (simp add: field_simps)
      also have "\<dots> \<le> 1 - 1 / 2 ^ 53"
      proof -
        have "(of_int y :: rat) \<le> of_int (2 ^ 53)" using assms(3) by (simp only: of_int_le_iff)
        then have "(1::rat) / 2 ^ 53 \<le> 1 / of_int y" using ry by (intro frac_le) simp_all
        then show ?thesis by simp
      qed
      finally have "q / u \<le> of_int (2 ^ 53 - 1)" by (simp add: uu field_simps)
      then have "round_half_even (q / u) \<le> 2 ^ 53 - 1" by (rule round_half_even_le)
      then have "(of_int (round_half_even (q / u)) :: rat) \<le> of_int (2 ^ 53 - 1)"
        by (simp only: of_int_le_iff)
      then have "double_round q \<le> of_int (2 ^ 53 - 1) * u"
        using upos by (simp add: dr mult_right_mono)
      also have "\<dots> < 1" by (simp add: uu)
      finally show ?thesis .
    next
      case False
      with eneg have e2: "e + 1 \<le> - 1" by simp
      have "q / u \<le> of_int (2 ^ 53)"
      proof -
        have "q \<le> 2 powi (e + 1)" using b(2) by simp
        also have "\<dots> = 2 powi 53 * u"
          unfolding u using power_int_add[of "2::rat" 53 "e - 52"] by (simp add: add.commute)
        finally show ?thesis using upos by (simp add: pos_divide_le_eq)
      qed
      then have "round_half_even (q / u) \<le> 2 ^ 53" by (rule round_half_even_le)
      then have "(of_int (round_half_even (q / u)) :: rat) \<le> of_int (2 ^ 53)"
        by (simp only: of_int_le_iff)
      then have "double_round q \<le> of_int (2 ^ 53) * u"
        using upos by (simp add: dr mult_right_mono)
      also have "\<dots> = 2 powi (e + 1)"
        unfolding u using power_int_add[of "2::rat" 53 "e - 52"] by (simp add: add.commute)
      also have "\<dots> \<le> 2 powi (- 1)" using e2 by (intro power_int_increasing) simp_all
      also have "\<dots> < 1" by (simp add: pow2_m1)
      finally show ?thesis .
    qed
  qed
  have one: "double_round q = 1" if "x = y"
  proof -
    have "q = of_int 1" using that ry by (simp add: q_def)
    then show ?thesis using double_round_int[of 1] by simp
  qed
  show "double_round (of_int x / of_int y) \<le> 1"
    using strict one assms(2) by (cases "x = y") (auto simp: q_def)
  show "(double_round (of_int x / of_int y) = 1) = (x = y)"
    using strict one assms(2) by (cases "x = y") (auto simp: q_def)
qed

section \<open>The interval score\<close>

lemma get_overlap_coords_width:
  "snd (get_overlap_coords (a0, a1) (b0, b1)) - fst (get_overlap_coords (a0, a1) (b0, b1))
     = (if min a1 b1 - max a0 b0 > 0 then min a1 b1 - max a0 b0 else 0)"
  by (simp add: get_overlap_coords_def)

text \<open>
  Claim C2, as stated: for two confidence intervals of positive width and positive
  overlap \<open>w\<close> the score without density weighting is exactly \<open>2 * w / (len_a + len_b)\<close>
  and is 1.0 only for identical intervals. It fails for the intervals
  \<open>(1, 2 ^ 61 + 1)\<close> and \<open>(1, 2 ^ 61)\<close>: both \<^verbatim>\<open>float(2*ol_width)\<close> and
  \<^verbatim>\<open>float(len_a+len_b)\<close> round to \<open>2 ^ 62\<close>, and the score is 1.0.
\<close>

theorem interval_score_one_for_different:
  "get_conf_interval huge_a 50 = Inr (1, 2 ^ 61 + 1)
   \<and> get_conf_interval huge_b 50 = Inr (1, 2 ^ 61)
   \<and> get_overlap_coords (1, 2 ^ 61 + 1) (1, 2 ^ 61) = (1, 2 ^ 61)
   \<and> interval_score (\<lambda>_ _. 1) huge_entry False = Inr 1
   \<and> of_int (2 * (2 ^ 61 - 1)) / of_int (2 ^ 61 + (2 ^ 61 - 1)) \<noteq> (1::rat)"
  by code_simp

text \<open>
  Claim C2, amended: for two confidence intervals of positive width whose overlap has
  positive width \<open>w\<close> and whose lengths sum to at most \<open>2 ^ 53\<close>, \<^verbatim>\<open>interval_score\<close>
  without density weighting returns the double nearest to \<open>2 * w / (len_a + len_b)\<close>;
  the value lies in \<open>(0, 1]\<close> and is 1.0 exactly when the two intervals are the same.
\<close>

theorem interval_score_rounded_dice:
  assumes a: "get_conf_interval (recA v) 50 = Inr (a0, a1)"
      and b: "recB v = Some b" "get_conf_interval b 50 = Inr (b0, b1)"
      and la: "0 < a1 - a0" and lb: "0 < b1 - b0"
      and w: "w = snd (get_overlap_coords (a0, a1) (b0, b1))
                    - fst (get_overlap_coords (a0, a1) (b0, b1))"
      and wpos: "0 < w"
      and bound: "(a1 - a0) + (b1 - b0) \<le> 2 ^ 53"
  shows "interval_score dens v False
           = Inr (double_round (of_int (2 * w) / of_int ((a1 - a0) + (b1 - b0))))
       \<and> 0 < double_round (of_int (2 * w) / of_int ((a1 - a0) + (b1 - b0)))
       \<and> double_round (of_int (2 * w) / of_int ((a1 - a0) + (b1 - b0))) \<le> 1
       \<and> ((double_round (of_int (2 * w) / of_int ((a1 - a0) + (b1 - b0))) = 1)
            = ((a0, a1) = (b0, b1)))"
proof -
  have weq: "w = min a1 b1 - max a0 b0"
    using w wpos by (auto simp: get_overlap_coords_width split: if_splits)
  have x0: "0 < 2 * w" using wpos by simp
  have xy: "2 * w \<le> (a1 - a0) + (b1 - b0)" using weq by linarith
  have x53: "2 * w \<le> 2 ^ 53" using xy bound by linarith
  have y0: "0 < (a1 - a0) + (b1 - b0)" using la lb by linarith
  have fx: "py_float (2 * w) = Inr (of_int (2 * w))" by (rule py_float_exact[OF x0 x53])
  have fy: "py_float ((a1 - a0) + (b1 - b0)) = Inr (of_int ((a1 - a0) + (b1 - b0)))"
    by (rule py_float_exact[OF y0 bound])
  have s: "interval_score dens v False
             = Inr (double_round (of_int (2 * w) / of_int ((a1 - a0) + (b1 - b0))))"
    using a b la lb wpos fx fy w[symmetric]
    by (simp add: interval_score_def Let_def del: of_int_mult of_int_add)
  have idn: "(2 * w = (a1 - a0) + (b1 - b0)) = ((a0, a1) = (b0, b1))"
    using weq la lb by auto
  show ?thesis
    using s double_round_quotient[OF x0 xy bound] idn by simp
qed

theorem interval_score_rounded_dice_witness:
  "interval_score (\<lambda>_ _. 1) dice_entry False
     = Inr (6141272219141585 / 9007199254740992)"
proof -
  have a: "get_conf_interval (recA dice_entry) 50 = Inr (140, 255)" by code_simp
  have b: "recB dice_entry = Some indel_b" by code_simp
  have c: "get_conf_interval indel_b 50 = Inr (180, 285)" by code_simp
  have w: "(75::int) = snd (get_overlap_coords (140, 255) (180, 285))
                    - fst (get_overlap_coords (140, 255) (180, 285))" by code_simp
  have d: "double_round (of_int (2 * 75) / of_int ((255 - 140) + (285 - 180)))
             = 6141272219141585 / 9007199254740992" by code_simp
  show ?thesis
    using interval_score_rounded_dice[OF a b c _ _ w, of "\<lambda>_ _. 1"] d by simp
qed

section \<open>The matching predicates\<close>

text \<open>
  Claim C5, as stated: two SNV records are eligible exactly when they have the same
  position, the same reference allele and the same set of alternate alleles. It
  fails both ways: two listings of one site with the alternate alleles \<open>G, T\<close> and
  \<open>T, G\<close> have the same allele set and are not eligible, and the same substitution
  at position 100 of two chromosomes is eligible.
\<close>

theorem vcfVariantMatch_snv_counterexample:
  "snv_record snv_A_GT \<and> snv_record snv_A_TG
   \<and> claimed_snv_match snv_A_GT snv_A_TG
   \<and> vcfVariantMatch snv_A_GT snv_A_TG = Inr False
   \<and> snv_record snv_AG \<and> snv_record snv_AG_chr2
   \<and> claimed_snv_match snv_AG snv_AG_chr2 = False
   \<and> vcfVariantMatch snv_AG snv_AG_chr2 = Inr True"
  by code_simp

text \<open>
  Claim C5, amended: two SNV records are eligible exactly when their \<^verbatim>\<open>POS\<close>, their
  reference allele and their list of alternate alleles (the same alleles in the same
  order) are equal; the predicate does not compare the chromosome, and no interval
  enters.
\<close>

theorem vcfVariantMatch_snv:
  assumes "snv_record a" "snv_record b"
  shows "vcfVariantMatch a b = Inr (POS a = POS b \<and> REF a = REF b \<and> ALT a = ALT b)"
  using assms by (simp add: vcfVariantMatch_def snv_record_def)

theorem vcfVariantMatch_snv_witness:
  "vcfVariantMatch snv_AG snv_AT = Inr False \<and> vcfVariantMatch snv_AG snv_AG_rs = Inr True"
proof -
  have s1: "snv_record snv_AG" by code_simp
  have s2: "snv_record snv_AT" by code_simp
  have s3: "snv_record snv_AG_rs" by code_simp
  have r1: "vcfVariantMatch snv_AG snv_AT = Inr False"
    using vcfVariantMatch_snv[OF s1 s2] by (simp add: snv_AG_def snv_AT_def snv_rec_def)
  have r2: "vcfVariantMatch snv_AG snv_AG_rs = Inr True"
    using vcfVariantMatch_snv[OF s1 s3] by (simp add: snv_AG_def snv_AG_rs_def snv_rec_def)
  show ?thesis using r1 r2 by simp
qed

lemma vcfIntervalMatch_result:
  "(case vcfIntervalMatch a b of Inl e \<Rightarrow> Inl e | Inr m \<Rightarrow> if m then Inr True else Inr False)
     = vcfIntervalMatch a b"
  by (cases "vcfIntervalMatch a b") auto

text \<open>
  Where both lower bounds are non-negative, the eligibility of two breakend records is
  what section 4.3 says: same orientation and overlapping confidence intervals.
\<close>

lemma vcfVariantMatch_sv_nonneg:
  assumes "sv_record a" "sv_record b"
      and "SVTYPE (INFO a) = Some ''BND''" "SVTYPE (INFO b) = Some ''BND''"
      and "ALT a = altA # ra" "ALT b = altB # rb"
      and "get_conf_interval a 50 = Inr (a0, a1)" "get_conf_interval b 50 = Inr (b0, b1)"
      and "0 \<le> a0" "0 \<le> b0"
  shows "vcfVariantMatch a b
           = Inr (orientSV altA = orientSV altB \<and> 0 < min a1 b1 - max a0 b0)"
  using assms
  by (auto simp: vcfVariantMatch_def sv_record_def vcfIntervalMatch_def get_overlap_coords_def
        Let_def)

text \<open>
  Claim C6 at a record next to the start of the chromosome: a breakend record at
  position 1 with \<^verbatim>\<open>CIPOS=-10,0\<close> has the confidence interval \<open>(-9, 2)\<close>, which
  overlaps itself over its whole width, and the record is not eligible for itself.
\<close>

theorem vcfVariantMatch_sv_negative_overlap:
  "sv_record left_ci_rec
   \<and> SVTYPE (INFO left_ci_rec) = Some ''BND''
   \<and> get_conf_interval left_ci_rec 50 = Inr (-9, 2)
   \<and> get_overlap_coords (-9, 2) (-9, 2) = (-9, 2)
   \<and> vcfVariantMatch left_ci_rec left_ci_rec = Inr False"
  by code_simp

text \<open>
  Claim C10: an alternate allele that none of the four bracket patterns matches is
  returned unchanged by \<^verbatim>\<open>orientSV\<close>; two such alleles have the same orientation
  exactly when they are the same string, and for two breakend records that carry the
  same such allele \<^verbatim>\<open>vcfVariantMatch\<close> is decided by the interval test alone.
\<close>

theorem orientSV_unrecognised:
  assumes "\<not> recognised alt"
  shows "orientSV alt = alt
       \<and> (\<not> recognised alt' \<longrightarrow> (orientSV alt = orientSV alt') = (alt = alt'))
       \<and> (sv_record a \<and> sv_record b
            \<and> SVTYPE (INFO a) = Some ''BND'' \<and> SVTYPE (INFO b) = Some ''BND''
            \<and> ALT a = alt # ra \<and> ALT b = alt # rb
          \<longrightarrow> vcfVariantMatch a b = vcfIntervalMatch a b)"
proof -
  have id: "orientSV x = x" if "\<not> recognised x" for x
    using that by (simp add: orientSV_def recognised_def)
  show ?thesis
    using assms id vcfIntervalMatch_result[of a b]
    by (auto simp: vcfVariantMatch_def sv_record_def)
qed

theorem orientSV_unrecognised_witness:
  "orientSV ''<BND>'' = ''<BND>''
   \<and> (orientSV ''<BND>'' = orientSV ''<DUP>'') = (''<BND>'' = ''<DUP>'')
   \<and> vcfVariantMatch symbolic_a symbolic_b = vcfIntervalMatch symbolic_a symbolic_b
   \<and> vcfVariantMatch symbolic_a symbolic_b = Inr True"
proof -
  have u1: "\<not> recognised ''<BND>''" by code_simp
  have u2: "\<not> recognised ''<DUP>''" by code_simp
  have h: "sv_record symbolic_a \<and> sv_record symbolic_b
            \<and> SVTYPE (INFO symbolic_a) = Some ''BND'' \<and> SVTYPE (INFO symbolic_b) = Some ''BND''
            \<and> ALT symbolic_a = ''<BND>'' # [] \<and> ALT symbolic_b = ''<BND>'' # []"
    by code_simp
  have v: "vcfVariantMatch symbolic_a symbolic_b = Inr True" by code_simp
  note t = orientSV_unrecognised[OF u1, of "''<DUP>''" symbolic_a symbolic_b "[]" "[]"]
  have c1: "orientSV ''<BND>'' = ''<BND>''" using t by blast
  have c2: "(orientSV ''<BND>'' = orientSV ''<DUP>'') = (''<BND>'' = ''<DUP>'')"
    using t u2 by blast
  have c3: "vcfVariantMatch symbolic_a symbolic_b = vcfIntervalMatch symbolic_a symbolic_b"
    using t h by blast
  show ?thesis
    by (rule conjI[OF c1 conjI[OF c2 conjI[OF c3 v]]])
qed

section \<open>Intervals of non-positive width\<close>

lemma overlap_width_pos:
  "snd (get_overlap_coords (a0, a1) (b0, b1)) - fst (get_overlap_coords (a0, a1) (b0, b1)) > 0
   \<Longrightarrow> 0 < a1 - a0 \<and> 0 < b1 - b0"
  by (auto simp: get_overlap_coords_def split: if_splits)

text \<open>
  Claim C8, as stated: a record whose confidence interval has non-positive width makes
  the interval computation fail with an assertion error in the comparison run. It
  fails for a breakend record whose \<^verbatim>\<open>END\<close> lies before its position:
  \<^verbatim>\<open>get_conf_interval\<close> returns the interval \<open>(100, 50)\<close>, the pass over the
  record against itself ends without an error and leaves it unmatched, and its score
  is 0.
\<close>

theorem get_conf_interval_no_assertion:
  "get_conf_interval end_before_pos_rec 50 = Inr (100, 50)
   \<and> entries (compareVCFs (tabix_source [end_before_pos_rec]) (tabix_source [end_before_pos_rec])
                50 1000 False) SV
        = Inr [new_variant SV end_before_pos_rec]
   \<and> score (\<lambda>_ _. 1) (new_variant SV end_before_pos_rec) False = Inr 0"
  by code_simp

text \<open>
  Claim C8, amended: \<^verbatim>\<open>get_conf_interval\<close> returns the interval it computes
  whatever its width; the assertion is in \<^verbatim>\<open>interval_score\<close>, which fails with
  an assertion error for every matched entry one of whose two confidence intervals
  has non-positive width.
\<close>

theorem interval_score_nonpositive_width:
  assumes "recB v = Some b"
      and "get_conf_interval (recA v) 50 = Inr (a0, a1)"
      and "get_conf_interval b 50 = Inr (b0, b1)"
      and "a1 - a0 \<le> 0 \<or> b1 - b0 \<le> 0"
  shows "interval_score dens v density = Inl AssertionError"
proof -
  have "\<not> snd (get_overlap_coords (a0, a1) (b0, b1))
            - fst (get_overlap_coords (a0, a1) (b0, b1)) > 0"
    using assms(4) overlap_width_pos[of a0 a1 b0 b1] by linarith
  then show ?thesis
    using assms(1-3) by (simp add: interval_score_def Let_def)
qed

theorem interval_score_nonpositive_width_witness:
  "entries (compareVCFs (tabix_source [short_indel]) (tabix_source [short_indel]) 50 1000 False)
      INDEL = Inr [short_entry]
   \<and> get_conf_interval short_indel 50 = Inr (450, 350)
   \<and> interval_score (\<lambda>_ _. 1) short_entry False = Inl AssertionError"
proof -
  have p: "entries (compareVCFs (tabix_source [short_indel]) (tabix_source [short_indel])
             50 1000 False) INDEL = Inr [short_entry]"
    by code_simp
  have b: "recB short_entry = Some short_indel" by code_simp
  have a: "get_conf_interval (recA short_entry) 50 = Inr (450, 350)" by code_simp
  have c: "get_conf_interval short_indel 50 = Inr (450, 350)" by code_simp
  have w: "(350::int) - 450 \<le> 0 \<or> (350::int) - 450 \<le> 0" by simp
  show ?thesis
    using interval_score_nonpositive_width[OF b a c w, of "\<lambda>_ _. 1" False] p c by simp
qed

section \<open>Agreement counts\<close>

text \<open>
  Claim C9 at an unmatched entry: a pass of one SNV that fails a filter against a
  source whose only record lies elsewhere on the chromosome leaves one unmatched
  entry, the matched count is 0, and \<^verbatim>\<open>count_agree_fail\<close> counts the entry.
\<close>

theorem count_agree_fail_unmatched:
  "entries (compareVCFs (tabix_source [failing_snv]) (tabix_source [snv_far]) 50 1000 False) SNV
     = Inr [new_variant SNV failing_snv]
   \<and> matched (new_variant SNV failing_snv) = False
   \<and> Comparison_matched (Comparison_init(SNV := [new_variant SNV failing_snv])) SNV = 0
   \<and> count_agree_fail (Comparison_init(SNV := [new_variant SNV failing_snv])) SNV = 1
   \<and> count_disagree_pass (Comparison_init(SNV := [new_variant SNV failing_snv])) SNV = 0"
  by code_simp

section \<open>The SNV cursor\<close>

text \<open>
  Claim C3 at a site with two alternate alleles: source B lists \<open>A>G\<close> and then
  \<open>A>T\<close> at one position, source A lists \<open>A>T\<close>. With \<^verbatim>\<open>faster_snv\<close> the cursor
  stays on the first record of the position and the SNV of A is unmatched; through
  the region query it is matched.
\<close>

theorem faster_snv_differs:
  "entries (compareVCFs (tabix_source [snv_AT]) (tabix_source [snv_AG, snv_AT]) 50 1000 True) SNV
     = Inr [new_variant SNV snv_AT]
   \<and> entries (compareVCFs (tabix_source [snv_AT]) (tabix_source [snv_AG, snv_AT]) 50 1000 False) SNV
     = Inr [(new_variant SNV snv_AT)\<lparr>recB := Some snv_AT\<rparr>]"
  by code_simp

section \<open>Primary and alternate matches\<close>

lemma match_candidates_matched:
  assumes "\<forall>b\<in>set cands. match_ok a b"
  shows "match_candidates vtype a cands (v, used, True)
           = Inr (v\<lparr>altmatch := altmatch v @ filter (eligible a) cands\<rparr>, used, True)"
  using assms
proof (induction cands arbitrary: v)
  case Nil
  then show ?case by simp
next
  case (Cons b bs)
  then obtain m where m: "vcfVariantMatch a b = Inr m" by (auto simp: match_ok_def)
  from Cons have IH: "\<And>v. match_candidates vtype a bs (v, used, True)
           = Inr (v\<lparr>altmatch := altmatch v @ filter (eligible a) bs\<rparr>, used, True)"
    by simp
  have el: "eligible a b = m" by (simp add: eligible_def m)
  show ?case
    by (cases m) (simp_all add: m IH el)
qed

lemma match_candidates_unmatched:
  assumes "\<forall>b\<in>set cands. match_ok a b"
      and "recB v = None"
  shows "match_candidates vtype a cands (v, used, False)
           = Inr (v\<lparr>recB := List.find (claimable vtype used) (filter (eligible a) cands),
                    altmatch := altmatch v
                       @ remove_first (claimable vtype used) (filter (eligible a) cands)\<rparr>,
                  (case List.find (claimable vtype used) (filter (eligible a) cands) of
                     None \<Rightarrow> used | Some b \<Rightarrow> used(sv_uid b \<mapsto> a)),
                  List.find (claimable vtype used) (filter (eligible a) cands) \<noteq> None)"
  using assms
proof (induction cands arbitrary: v)
  case Nil
  then show ?case by simp
next
  case (Cons b bs)
  then obtain m where m: "vcfVariantMatch a b = Inr m" by (auto simp: match_ok_def)
  from Cons.prems have bs: "\<forall>b\<in>set bs. match_ok a b" by simp
  have el: "eligible a b = m" by (simp add: eligible_def m)
  show ?case
  proof (cases m)
    case False
    then show ?thesis
      using Cons.IH[OF bs Cons.prems(2)] m el by simp
  next
    case True
    show ?thesis
    proof (cases "claimable vtype used b")
      case True
      have g: "\<not> (interval_kind vtype \<and> used (sv_uid b) \<noteq> None)"
        using True by (simp add: claimable_def)
      have sl: "set_left v b = (v\<lparr>recB := Some b\<rparr>, True)"
        using Cons.prems(2) by (simp add: set_left_def)
      have upd: "(\<lambda>c. if c = sv_uid b then Some a else used c) = used(sv_uid b \<mapsto> a)"
        by (rule ext) simp
      show ?thesis
        using \<open>m\<close> g True
        by (auto simp add: m el sl upd Cons.prems(2) match_candidates_matched[OF bs])
    next
      case False
      have g: "interval_kind vtype \<and> used (sv_uid b) \<noteq> None"
        using False by (simp add: claimable_def)
      have r: "recB (v\<lparr>altmatch := altmatch v @ [b]\<rparr>) = None" using Cons.prems(2) by simp
      show ?thesis
        using \<open>m\<close> g False
        by (simp add: m el Cons.prems(2) Cons.IH[OF bs r])
    qed
  qed
qed

text \<open>One record of source A through the region query.\<close>

lemma compare_record_fetch:
  assumes ty: "classify a = Some vtype"
      and q: "region_candidates h_interval_vcfB w_indel w_sv vtype a = Inr cands"
      and noerr: "\<forall>b\<in>set cands. match_ok a b"
  shows "compare_record h_interval_vcfB w_indel w_sv False a st =
           Inr (st\<lparr>result := (result st)
                   (vtype := result st vtype @
                      [\<lparr>kind = vtype, recA = a,
                        recB = List.find (claimable vtype (used_B_interval st))
                                 (filter (eligible a) cands),
                        altmatch = remove_first (claimable vtype (used_B_interval st))
                                 (filter (eligible a) cands)\<rparr>]),
                  used_B_interval :=
                    (case List.find (claimable vtype (used_B_interval st))
                            (filter (eligible a) cands) of
                       None \<Rightarrow> used_B_interval st
                     | Some b \<Rightarrow> (used_B_interval st)(sv_uid b \<mapsto> a))\<rparr>)"
proof -
  have n: "recB (new_variant vtype a) = None" by (simp add: new_variant_def)
  have f: "fetch h_interval_vcfB (CHROM a)
             (if rec_start a - window_of w_indel w_sv vtype < 1 then 1
              else rec_start a - window_of w_indel w_sv vtype)
             (rec_end a + window_of w_indel w_sv vtype) = Inr cands"
    using q by (simp add: region_candidates_def)
  show ?thesis
    using ty f match_candidates_unmatched[OF noerr n, of vtype "used_B_interval st"]
    by (simp add: compare_record_def Let_def new_variant_def)
qed

lemma entries_of_Cons:
  "entries_of vt ((k, v) # es) = (if k = vt then v # entries_of vt es else entries_of vt es)"
  by (simp add: entries_of_def)

lemma entries_of_Nil: "entries_of vt [] = []"
  by (simp add: entries_of_def)

text \<open>
  The loop over the records of source A, from a state whose ledger holds the
  identities in \<open>claimed\<close>.
\<close>

lemma compare_records_claimed_pass:
  assumes ok: "\<forall>a\<in>set as.
        case classify a of
          None \<Rightarrow> True
        | Some vtype \<Rightarrow>
            (case region_candidates h_interval_vcfB w_indel w_sv vtype a of
               Inl _ \<Rightarrow> False
             | Inr cands \<Rightarrow> \<forall>b\<in>set cands. match_ok a b)"
      and led: "\<forall>k. (used_B_interval st k \<noteq> None) = (k \<in> set claimed)"
  shows "\<exists>st'. compare_records h_interval_vcfB w_indel w_sv False as st = Inr st'
           \<and> (\<forall>vt. result st' vt
                 = result st vt @ entries_of vt (claimed_pass h_interval_vcfB w_indel w_sv as claimed))"
  using ok led
proof (induction as arbitrary: st claimed)
  case Nil
  then show ?case by (simp add: entries_of_Nil)
next
  case (Cons a as)
  have ok': "\<forall>a\<in>set as.
        case classify a of
          None \<Rightarrow> True
        | Some vtype \<Rightarrow>
            (case region_candidates h_interval_vcfB w_indel w_sv vtype a of
               Inl _ \<Rightarrow> False
             | Inr cands \<Rightarrow> \<forall>b\<in>set cands. match_ok a b)"
    using Cons.prems(1) by simp
  show ?case
  proof (cases "classify a")
    case None
    have step: "compare_record h_interval_vcfB w_indel w_sv False a st = Inr st"
      by (simp add: compare_record_def None)
    from Cons.IH[OF ok' Cons.prems(2)] obtain st' where
      r: "compare_records h_interval_vcfB w_indel w_sv False as st = Inr st'"
      and c: "\<forall>vt. result st' vt
                 = result st vt @ entries_of vt (claimed_pass h_interval_vcfB w_indel w_sv as claimed)"
      by blast
    show ?thesis using step r c None by simp
  next
    case (Some vta)
    from Cons.prems(1) Some obtain cands where
      q: "region_candidates h_interval_vcfB w_indel w_sv vta a = Inr cands"
      and noerr: "\<forall>b\<in>set cands. match_ok a b"
      by (cases "region_candidates h_interval_vcfB w_indel w_sv vta a") auto
    have co: "candidates_of h_interval_vcfB w_indel w_sv vta a = cands"
      by (simp add: candidates_of_def q)
    define E where "E = filter (eligible a) cands"
    define P where "P = (\<lambda>b. \<not> (interval_kind vta \<and> sv_uid b \<in> set claimed))"
    have fr: "claimable vta (used_B_interval st) = P"
      using Cons.prems(2) by (auto simp: claimable_def fun_eq_iff P_def)
    define prim where "prim = List.find P E"
    define v where "v = \<lparr>kind = vta, recA = a, recB = prim, altmatch = remove_first P E\<rparr>"
    define used1 where "used1 = (case prim of None \<Rightarrow> used_B_interval st
                                 | Some b \<Rightarrow> (used_B_interval st)(sv_uid b \<mapsto> a))"
    define claimed1 where "claimed1 = (case prim of None \<Rightarrow> claimed | Some b \<Rightarrow> sv_uid b # claimed)"
    define st1 where "st1 = st\<lparr>result := (result st)(vta := result st vta @ [v]),
                               used_B_interval := used1\<rparr>"
    have step: "compare_record h_interval_vcfB w_indel w_sv False a st = Inr st1"
      using compare_record_fetch[OF Some q noerr, of st]
      by (simp add: fr E_def prim_def v_def used1_def st1_def)
    have led1: "\<forall>k. (used_B_interval st1 k \<noteq> None) = (k \<in> set claimed1)"
      using Cons.prems(2) by (cases prim) (auto simp: st1_def used1_def claimed1_def)
    from Cons.IH[OF ok' led1] obtain st' where
      r: "compare_records h_interval_vcfB w_indel w_sv False as st1 = Inr st'"
      and c: "\<forall>vt. result st' vt
                 = result st1 vt @ entries_of vt (claimed_pass h_interval_vcfB w_indel w_sv as claimed1)"
      by blast
    have cp: "claimed_pass h_interval_vcfB w_indel w_sv (a # as) claimed
                = (vta, v) # claimed_pass h_interval_vcfB w_indel w_sv as claimed1"
      by (simp add: Some co E_def prim_def v_def claimed1_def P_def)
    have "result st' vt
            = result st vt @ entries_of vt (claimed_pass h_interval_vcfB w_indel w_sv (a # as) claimed)"
      for vt
      using c unfolding cp by (simp add: entries_of_Cons st1_def)
    then show ?thesis using step r by simp
  qed
qed

text \<open>
  Claim C4: in a directional pass through the region query in which no query and no
  test of a candidate fails, the entries of every type are those of the pass as the
  specification words it: the ledger is empty at the start and holds the primary
  matches of the earlier records; each record's \<^verbatim>\<open>recB\<close> is the first eligible
  candidate, in the order of the region query, that the ledger leaves free (the
  ledger counts for INDEL, SV and CNV only), and its \<^verbatim>\<open>altmatch\<close> holds every other
  eligible candidate in order, those after the primary match and those the ledger
  holds.
\<close>

theorem compareVCFs_primary_and_alternates:
  assumes "pass_ok h_vcfA h_interval_vcfB w_indel w_sv"
  shows "entries (compareVCFs h_vcfA h_interval_vcfB w_indel w_sv False) vtype
           = Inr (entries_of vtype
                   (claimed_pass h_interval_vcfB w_indel w_sv (records h_vcfA) []))"
proof -
  obtain cur rest where ic: "init_cursor (records h_interval_vcfB) = (cur, rest)"
    by (cases "init_cursor (records h_interval_vcfB)")
  define st0 where "st0 = \<lparr>result = Comparison_init, used_B_interval = Map.empty,
                            snv_recB = cur, snv_rest = rest\<rparr>"
  have led: "\<forall>k. (used_B_interval st0 k \<noteq> None) = (k \<in> set [])" by (simp add: st0_def)
  have ok: "\<forall>a\<in>set (records h_vcfA).
        case classify a of
          None \<Rightarrow> True
        | Some vtype \<Rightarrow>
            (case region_candidates h_interval_vcfB w_indel w_sv vtype a of
               Inl _ \<Rightarrow> False
             | Inr cands \<Rightarrow> \<forall>b\<in>set cands. match_ok a b)"
    using assms by (simp add: pass_ok_def)
  from compare_records_claimed_pass[OF ok led] obtain st' where
    r: "compare_records h_interval_vcfB w_indel w_sv False (records h_vcfA) st0 = Inr st'"
    and c: "\<forall>vt. result st' vt
               = result st0 vt
                 @ entries_of vt (claimed_pass h_interval_vcfB w_indel w_sv (records h_vcfA) [])"
    by blast
  have z: "result st0 vtype = []" by (simp add: st0_def Comparison_init_def)
  show ?thesis
    using r c z ic by (simp add: entries_def compareVCFs_def st0_def[symmetric])
qed

theorem compareVCFs_primary_and_alternates_witness:
  "entries (compareVCFs (tabix_source [ins_100, ins_110])
              (tabix_source [ins_105, ins_120]) 50 1000 False) INDEL
     = Inr [\<lparr>kind = INDEL, recA = ins_100, recB = Some ins_105, altmatch = [ins_120]\<rparr>,
            \<lparr>kind = INDEL, recA = ins_110, recB = Some ins_120, altmatch = [ins_105]\<rparr>]"
proof -
  have ok: "pass_ok (tabix_source [ins_100, ins_110]) (tabix_source [ins_105, ins_120]) 50 1000"
    by code_simp
  have e: "entries_of INDEL
             (claimed_pass (tabix_source [ins_105, ins_120]) 50 1000
                (records (tabix_source [ins_100, ins_110])) [])
           = [\<lparr>kind = INDEL, recA = ins_100, recB = Some ins_105, altmatch = [ins_120]\<rparr>,
              \<lparr>kind = INDEL, recA = ins_110, recB = Some ins_120, altmatch = [ins_105]\<rparr>]"
    by code_simp
  show ?thesis
    using compareVCFs_primary_and_alternates[OF ok, of INDEL] e by simp
qed

section \<open>Symmetry of the matched counts\<close>














lemma get_overlap_coords_commute:
  "get_overlap_coords iv_a iv_b = get_overlap_coords iv_b iv_a"
  by (simp add: get_overlap_coords_def min.commute max.commute)

lemma vcfIntervalMatch_commute:
  "vcfIntervalMatch a b = Inr True \<Longrightarrow> vcfIntervalMatch b a = Inr True"
  unfolding vcfIntervalMatch_def Let_def
  by (auto simp: get_overlap_coords_def min.commute max.commute split: if_splits sum.splits)

lemma eligible_commute:
  assumes "eligible a b"
  shows "eligible b a"
proof -
  have m: "vcfVariantMatch a b = Inr True" using assms by (simp add: eligible_def)
  show ?thesis
  proof (cases "is_snp a \<and> is_snp b \<and> POS a = POS b \<and> REF a = REF b \<and> ALT a = ALT b")
    case True
    then show ?thesis by (simp add: eligible_def vcfVariantMatch_def)
  next
    case n1: False
    show ?thesis
    proof (cases "is_indel a \<and> is_indel b \<and> REF a = REF b \<and> ALT a = ALT b")
      case True
      then show ?thesis by (simp add: eligible_def vcfVariantMatch_def)
    next
      case n2: False
      from m n1 n2 have sv: "is_sv a" "is_sv b" "SVTYPE (INFO a) = SVTYPE (INFO b)"
        "SVTYPE (INFO b) = Some ''BND''"
        by (auto simp: vcfVariantMatch_def split: if_splits)
      from m n1 n2 sv obtain xa ra xb rb where
        alt: "ALT a = xa # ra" "ALT b = xb # rb" "orientSV xa = orientSV xb"
        and im: "vcfIntervalMatch a b = Inr True"
        by (auto simp: vcfVariantMatch_def split: if_splits list.splits sum.splits)
      have im': "vcfIntervalMatch b a = Inr True" using im by (rule vcfIntervalMatch_commute)
      show ?thesis
        using sv alt im' by (auto simp: eligible_def vcfVariantMatch_def)
    qed
  qed
qed




lemma eligible_iff_commute: "eligible a b = eligible b a"
  using eligible_commute by blast




















end
